theory Spec2Isabelle
  imports Main "HOL-Library.Word"
begin

section \<open>Platform parameters\<close>

text \<open>
  The header \<open>fasta_validate.h\<close> (\<open>MAXLINELEN\<close>, \<open>NUMSEQS\<close>) is not part of the
  sources, and \<open>hcreate\<close>, \<open>hsearch\<close>, \<open>hdestroy\<close> belong to the C library. What the
  scanner needs from them is taken as a parameter:

  \<^item> \<open>on_active\<close>: what \<open>hcreate\<close> does when the process-wide table of an earlier
    \<open>hcreate\<close> was never destroyed. \<open>Refuse\<close>: it returns 0 and leaves the table alone
    (glibc: "there is still another table active"). \<open>Replace\<close>: it installs a new,
    empty table (musl). \<open>Keep\<close>: it returns non-zero and the old table, with its
    entries, stays in use (FreeBSD, where \<open>hcreate\<close> only reports success).
  \<^item> \<open>capacity\<close>: how many entries the table made by \<open>hcreate(NUMSEQS)\<close> holds; a
    \<open>hsearch(item, ENTER)\<close> into a full table returns \<open>NULL\<close> and stores nothing.
  \<^item> \<open>char_signed\<close>: whether plain \<open>char\<close> is signed, which decides the value of
    \<open>(int) seq[i]\<close> for bytes above 127.
\<close>

datatype hcreate_policy = Refuse | Replace | Keep

record platform =
  on_active :: hcreate_policy
  capacity :: nat
  char_signed :: bool

section \<open>Lines and characters\<close>

text \<open>
  A line is the C string that \<open>fgets\<close> (or \<open>gzgets\<close>) leaves in the buffer \<open>line\<close>: the
  bytes up to and including the next line feed, fewer than \<open>MAXLINELEN\<close> of them, ending
  before the first NUL byte. The file is the list of these strings, in order.
\<close>

type_synonym line = string

abbreviation LF :: char where "LF \<equiv> CHR 0x0A"
abbreviation CR :: char where "CR \<equiv> CHR 0x0D"

text \<open>A line of text with its line feed.\<close>

abbreviation eol :: "string \<Rightarrow> line" where "eol s \<equiv> s @ [LF]"

text \<open>\<open>(int) seq[i]\<close>: the byte read as a signed or an unsigned \<open>char\<close>.\<close>

definition char_int :: "bool \<Rightarrow> char \<Rightarrow> int" where
  "char_int sg c = (let n = of_char c in if sg \<and> 128 \<le> n then n - 256 else n)"

text \<open>\<open>line[0] == '>'\<close>; the first byte of the empty string is its NUL.\<close>

fun is_header :: "line \<Rightarrow> bool" where
  "is_header [] = False"
| "is_header (c # cs) = (c = CHR ''>'')"

section \<open>The character classifier\<close>

text \<open>The loop of \<open>contains_non_word_characters\<close> over \<open>seq[0 .. strlen(seq) - 1]\<close>.\<close>

fun non_word_scan :: "bool \<Rightarrow> string \<Rightarrow> int" where
  "non_word_scan sg [] = 0"
| "non_word_scan sg (c # cs) =
     (if char_int sg c < 65 then
        (if char_int sg c \<noteq> 10 \<and> char_int sg c \<noteq> 13 then 1 else non_word_scan sg cs)
      else if char_int sg c > 90 \<and> char_int sg c < 97 then 2
      else if char_int sg c > 122 then 3
      else non_word_scan sg cs)"

text \<open>The argument is a pointer: \<open>None\<close> is \<open>NULL\<close>.\<close>

definition contains_non_word_characters :: "bool \<Rightarrow> string option \<Rightarrow> int" where
  "contains_non_word_characters sg seq =
     (case seq of None \<Rightarrow> 8 | Some s \<Rightarrow> non_word_scan sg s)"

text \<open>The character classes of the specification, by code.\<close>

definition ascii_upper :: "char \<Rightarrow> bool" where
  "ascii_upper c = (65 \<le> (of_char c :: nat) \<and> (of_char c :: nat) \<le> 90)"

definition ascii_lower :: "char \<Rightarrow> bool" where
  "ascii_lower c = (97 \<le> (of_char c :: nat) \<and> (of_char c :: nat) \<le> 122)"

definition tolerated :: "char \<Rightarrow> bool" where
  "tolerated c = (ascii_upper c \<or> ascii_lower c \<or> c = CR \<or> c = LF)"

section \<open>The identifier registry\<close>

text \<open>
  The process-wide table of \<open>hsearch\<close>: \<open>None\<close> when no table is active, otherwise the
  keys entered so far. \<open>hcreate\<close> gives the table the scan works on, or \<open>None\<close> when it
  returns 0 (running out of memory is not modelled).
\<close>

type_synonym htab = "string list option"

fun hcreate :: "platform \<Rightarrow> htab \<Rightarrow> string list option" where
  "hcreate P None = Some []"
| "hcreate P (Some t) =
     (case on_active P of Refuse \<Rightarrow> None | Replace \<Rightarrow> Some [] | Keep \<Rightarrow> Some t)"

definition hsearch_find :: "string \<Rightarrow> string list \<Rightarrow> bool" where
  "hsearch_find k t = (k \<in> set t)"

definition hsearch_enter :: "platform \<Rightarrow> string \<Rightarrow> string list \<Rightarrow> string list" where
  "hsearch_enter P k t = (if k \<in> set t then t else if length t < capacity P then k # t else t)"

section \<open>The scanner\<close>

text \<open>
  The locals of \<open>validate_fasta_core\<close> and the table. \<open>seqcount\<close> is an \<open>int\<close>;
  \<open>seqcount += strlen(line)\<close> adds in \<open>size_t\<close> and converts back, so the counter is
  the sum modulo \<open>2 ^ 32\<close>.
\<close>

record scan =
  firstline :: bool
  seqcount :: "32 word"
  table :: "string list"

text \<open>
  \<open>strchr(line, ' ')\<close> followed by \<open>*p = '\0'\<close> and \<open>strdup(line)\<close>: the key is the line
  up to its first space, the marker and, when there is no space, the line terminator
  included.
\<close>

definition header_key :: "line \<Rightarrow> string" where
  "header_key l = takeWhile (\<lambda>c. c \<noteq> CHR '' '') l"

text \<open>
  One pass through the body of the \<open>while\<close> loop: the return code, if the body
  returns, and the state it leaves. Diagnostics under \<open>verbose\<close> are not modelled.
\<close>

definition scan_line :: "platform \<Rightarrow> line \<Rightarrow> scan \<Rightarrow> int option \<times> scan" where
  "scan_line P l s =
     (if is_header l then
        (if \<not> firstline s \<and> seqcount s = 0 then (Some 8, s)
         else
           let s1 = s\<lparr>firstline := False, seqcount := 0\<rparr>;
               k = header_key l
           in if hsearch_find k (table s1) then (Some 2, s1)
              else (None, s1\<lparr>table := hsearch_enter P k (table s1)\<rparr>))
      else
        (if firstline s then (Some 1, s)
         else if contains_non_word_characters (char_signed P) (Some l) \<noteq> 0 then (Some 4, s)
         else (None, s\<lparr>seqcount := seqcount s + of_nat (length l)\<rparr>)))"

fun scan_lines :: "platform \<Rightarrow> line list \<Rightarrow> scan \<Rightarrow> int option \<times> scan" where
  "scan_lines P [] s = (None, s)"
| "scan_lines P (l # ls) s =
     (case scan_line P l s of
        (Some rc, s') \<Rightarrow> (Some rc, s')
      | (None, s') \<Rightarrow> scan_lines P ls s')"

definition start :: "string list \<Rightarrow> scan" where
  "start t = \<lparr>firstline = True, seqcount = 0, table = t\<rparr>"

text \<open>
  \<open>validate_fasta_core\<close>. The file is what \<open>fopen\<close> and the reads give: \<open>None\<close> when
  it cannot be opened. The result is the return code and the table left behind;
  \<open>hdestroy\<close> is reached on the last path only.
\<close>

definition validate_fasta_core :: "platform \<Rightarrow> htab \<Rightarrow> line list option \<Rightarrow> int \<times> htab" where
  "validate_fasta_core P g file =
     (case hcreate P g of
        None \<Rightarrow> (-1, g)
      | Some t \<Rightarrow>
          (case file of
             None \<Rightarrow> (1, Some t)
           | Some ls \<Rightarrow>
               (case scan_lines P ls (start t) of
                  (Some rc, s) \<Rightarrow> (rc, Some (table s))
                | (None, s) \<Rightarrow>
                    if seqcount s = 0 then (8, Some (table s)) else (0, None))))"

text \<open>
  \<open>validate_fasta_core_gzip\<close>: the same loop over \<open>gzgets\<close>; \<open>hdestroy\<close> comes before
  the check at the end of the stream.
\<close>

definition validate_fasta_core_gzip :: "platform \<Rightarrow> htab \<Rightarrow> line list option \<Rightarrow> int \<times> htab" where
  "validate_fasta_core_gzip P g file =
     (case hcreate P g of
        None \<Rightarrow> (-1, g)
      | Some t \<Rightarrow>
          (case file of
             None \<Rightarrow> (1, Some t)
           | Some ls \<Rightarrow>
               (case scan_lines P ls (start t) of
                  (Some rc, s) \<Rightarrow> (rc, Some (table s))
                | (None, s) \<Rightarrow>
                    if seqcount s = 0 then (8, None) else (0, None))))"

text \<open>
  \<open>validate_fasta_file\<close>: the scanner is chosen by the suffix of the name. \<open>plain\<close>
  and \<open>gz\<close> give the lines read through \<open>fopen\<close> and through \<open>gzopen\<close>.
\<close>

definition gz_suffix :: "string \<Rightarrow> bool" where
  "gz_suffix filename =
     (length filename \<ge> 3 \<and> drop (length filename - 3) filename = ''.gz'')"

definition validate_fasta_file ::
  "platform \<Rightarrow> (string \<Rightarrow> line list option) \<Rightarrow> (string \<Rightarrow> line list option) \<Rightarrow>
   htab \<Rightarrow> string \<Rightarrow> int \<times> htab" where
  "validate_fasta_file P plain gz g filename =
     (if gz_suffix filename then validate_fasta_core_gzip P g (gz filename)
      else validate_fasta_core P g (plain filename))"


section \<open>The notions of the specification\<close>

text \<open>The white space of C's \<open>isspace\<close> in the C locale.\<close>

definition whitespace :: "char \<Rightarrow> bool" where
  "whitespace c = (c = CHR '' '' \<or> c = CHR 0x09 \<or> c = LF \<or> c = CHR 0x0B \<or> c = CHR 0x0C \<or> c = CR)"

text \<open>
  The record identifier in the words of the specification: the header line with its
  marker stripped, up to the first whitespace character.
\<close>

definition record_identifier :: "line \<Rightarrow> string" where
  "record_identifier l = takeWhile (\<lambda>c. \<not> whitespace c) (tl l)"

text \<open>A line that holds nothing but line terminators.\<close>

definition blank_line :: "line \<Rightarrow> bool" where
  "blank_line l = (\<forall>c\<in>set l. c = CR \<or> c = LF)"

text \<open>
  The number of characters on the sequence lines of each record, in order:
  \<open>seq_sizes n ls\<close> when \<open>n\<close> characters of the current record are behind.
\<close>

fun seq_sizes :: "nat \<Rightarrow> line list \<Rightarrow> nat list" where
  "seq_sizes n [] = [n]"
| "seq_sizes n (l # ls) =
     (if is_header l then n # seq_sizes 0 ls else seq_sizes (n + length l) ls)"

definition record_sizes :: "line list \<Rightarrow> nat list" where
  "record_sizes ls = seq_sizes 0 (tl ls)"

text \<open>
  A well-formed input in the words of the specification: the first line is a header,
  the identifiers are unique, the sequence lines hold letters and line terminators
  only, and every record has sequence content.
\<close>

definition well_formed :: "line list \<Rightarrow> bool" where
  "well_formed ls =
     (ls \<noteq> [] \<and> is_header (hd ls)
      \<and> distinct (map record_identifier (filter is_header ls))
      \<and> (\<forall>l\<in>set ls. \<not> is_header l \<longrightarrow> (\<forall>c\<in>set l. tolerated c))
      \<and> (\<forall>n\<in>set (record_sizes ls). 0 < n))"

text \<open>Two runs of the plain scanner in one process, on the same file.\<close>

definition validate_twice :: "platform \<Rightarrow> line list option \<Rightarrow> int \<times> int" where
  "validate_twice P file =
     (let (r1, g1) = validate_fasta_core P None file;
          (r2, g2) = validate_fasta_core P g1 file
      in (r1, r2))"

text \<open>A Linux platform: glibc, signed \<open>char\<close>, a table of \<open>cap\<close> entries.\<close>

definition glibc :: "nat \<Rightarrow> platform" where
  "glibc cap = \<lparr>on_active = Refuse, capacity = cap, char_signed = True\<rparr>"

section \<open>The classifier accepts letters and line terminators\<close>

lemma of_char_int_nat: "(of_char c :: int) = int (of_char c)"
  by (simp add: of_nat_of_char)

lemma LF_code: "(c = LF) = ((of_char c :: nat) = 10)"
proof -
  have "(of_char c = (of_char LF :: nat)) = (c = LF)" by (rule of_char_eq_iff)
  then show ?thesis by simp
qed

lemma CR_code: "(c = CR) = ((of_char c :: nat) = 13)"
proof -
  have "(of_char c = (of_char CR :: nat)) = (c = CR)" by (rule of_char_eq_iff)
  then show ?thesis by simp
qed

lemma char_passes_arith:
  fixes n :: nat
  assumes "n < 256"
  shows "(\<not> ((if sg \<and> 128 \<le> int n then int n - 256 else int n) < 65
            \<and> (if sg \<and> 128 \<le> int n then int n - 256 else int n) \<noteq> 10
            \<and> (if sg \<and> 128 \<le> int n then int n - 256 else int n) \<noteq> 13)
          \<and> \<not> ((if sg \<and> 128 \<le> int n then int n - 256 else int n) > 90
            \<and> (if sg \<and> 128 \<le> int n then int n - 256 else int n) < 97)
          \<and> \<not> (if sg \<and> 128 \<le> int n then int n - 256 else int n) > 122)
         = (65 \<le> n \<and> n \<le> 90 \<or> 97 \<le> n \<and> n \<le> 122 \<or> n = 13 \<or> n = 10)"
proof (cases "sg \<and> 128 \<le> int n")
  case True
  then show ?thesis using assms by auto
next
  case False
  then have "(if sg \<and> 128 \<le> int n then int n - 256 else int n) = int n" by simp
  then show ?thesis using assms False by (simp only:) arith
qed

lemma char_passes_iff:
  "(\<not> (char_int sg c < 65 \<and> char_int sg c \<noteq> 10 \<and> char_int sg c \<noteq> 13)
    \<and> \<not> (char_int sg c > 90 \<and> char_int sg c < 97) \<and> \<not> char_int sg c > 122)
   = tolerated c"
  unfolding char_int_def tolerated_def ascii_upper_def ascii_lower_def
    LF_code CR_code of_char_int_nat Let_def
  by (rule char_passes_arith [OF nat_of_char_less_256])

lemma non_word_scan_zero_iff: "(non_word_scan sg l = 0) = (\<forall>c\<in>set l. tolerated c)"
proof (induction l)
  case Nil
  show ?case by simp
next
  case (Cons c cs)
  show ?case
    using char_passes_iff [of sg c] Cons.IH by auto
qed

lemma non_word_scan_range: "non_word_scan sg l \<in> {0, 1, 2, 3}"
  by (induction l) auto

section \<open>The loop, line by line\<close>

lemma scan_lines_append:
  "scan_lines P (xs @ ys) s =
     (case scan_lines P xs s of
        (Some rc, s') \<Rightarrow> (Some rc, s')
      | (None, s') \<Rightarrow> scan_lines P ys s')"
proof (induction xs arbitrary: s)
  case Nil
  show ?case by simp
next
  case (Cons x xs)
  show ?case
  proof (cases "scan_line P x s")
    case (Pair r s1)
    then show ?thesis using Cons.IH [of s1] by (cases r) simp_all
  qed
qed

lemma scan_line_pass_seen: "scan_line P l s = (None, s') \<Longrightarrow> \<not> firstline s'"
  by (auto simp: scan_line_def Let_def split: if_splits)

lemma scan_lines_seen_kept:
  "scan_lines P ls s = (None, s') \<Longrightarrow> \<not> firstline s \<Longrightarrow> \<not> firstline s'"
proof (induction ls arbitrary: s)
  case Nil
  then show ?case by simp
next
  case (Cons l ls)
  obtain r s1 where sl: "scan_line P l s = (r, s1)" by (cases "scan_line P l s")
  with Cons.prems(1) have r: "r = None" and rest: "scan_lines P ls s1 = (None, s')"
    by (cases r; simp)+
  from sl r have "\<not> firstline s1" by (simp add: scan_line_pass_seen)
  with rest show ?case by (rule Cons.IH)
qed

lemma scan_lines_pass_seen:
  assumes "scan_lines P ls s = (None, s')" and "ls \<noteq> []"
  shows "\<not> firstline s'"
proof -
  from assms(2) obtain l rest where ls: "ls = l # rest" by (cases ls) auto
  obtain r s1 where sl: "scan_line P l s = (r, s1)" by (cases "scan_line P l s")
  with assms(1) ls have r: "r = None" and rest: "scan_lines P rest s1 = (None, s')"
    by (cases r; simp)+
  from sl r have "\<not> firstline s1" by (simp add: scan_line_pass_seen)
  with rest show ?thesis by (rule scan_lines_seen_kept)
qed

lemma scan_lines_fault_at:
  assumes "scan_lines P pre s = (None, s1)" and "scan_line P l s1 = (Some rc, s2)"
  shows "scan_lines P (pre @ l # post) s = (Some rc, s2)"
  using assms by (simp add: scan_lines_append)

lemma validate_fault_at:
  assumes "scan_lines P pre (start []) = (None, s1)" and "scan_line P l s1 = (Some rc, s2)"
  shows "fst (validate_fasta_core P None (Some (pre @ l # post))) = rc"
  using scan_lines_fault_at [OF assms] by (simp add: validate_fasta_core_def)

section \<open>Claims about the classifier\<close>

text \<open>
  C6. The classifier judges a line clean exactly when each of its characters is an
  ASCII upper-case letter, an ASCII lower-case letter, a carriage return or a line
  feed. So when the lines \<open>pre\<close> before it, which hold a header, pass without a
  fault, a sequence line with a character outside these classes makes the scanner
  return 4, whatever follows.
\<close>

theorem classifier_clean_iff_tolerated:
  "(contains_non_word_characters sg (Some l) = 0 \<longleftrightarrow> (\<forall>c\<in>set l. tolerated c))
   \<and> (scan_lines P pre (start []) = (None, s) \<longrightarrow> pre \<noteq> [] \<longrightarrow> \<not> is_header l
        \<longrightarrow> \<not> (\<forall>c\<in>set l. tolerated c)
        \<longrightarrow> fst (validate_fasta_core P None (Some (pre @ l # post))) = 4)"
proof (intro conjI impI)
  show "contains_non_word_characters sg (Some l) = 0 \<longleftrightarrow> (\<forall>c\<in>set l. tolerated c)"
    by (simp add: contains_non_word_characters_def non_word_scan_zero_iff)
next
  assume pre: "scan_lines P pre (start []) = (None, s)" and ne: "pre \<noteq> []"
    and nh: "\<not> is_header l" and bad: "\<not> (\<forall>c\<in>set l. tolerated c)"
  from pre ne have seen: "\<not> firstline s" by (rule scan_lines_pass_seen)
  from bad have "non_word_scan (char_signed P) l \<noteq> 0"
    by (simp add: non_word_scan_zero_iff)
  with nh seen have "scan_line P l s = (Some 4, s)"
    by (simp add: scan_line_def contains_non_word_characters_def)
  with pre show "fst (validate_fasta_core P None (Some (pre @ l # post))) = 4"
    by (rule validate_fault_at)
qed

theorem classifier_clean_iff_tolerated_witness:
  "contains_non_word_characters True (Some (eol ''ACGT'')) = 0
   \<and> contains_non_word_characters True (Some (eol ''ACG123'')) \<noteq> 0
   \<and> fst (validate_fasta_core (glibc 1000) None
        (Some ([eol ''>seq1''] @ eol ''ACG123'' # []))) = 4"
proof -
  have pre: "scan_lines (glibc 1000) [eol ''>seq1''] (start []) =
      (None, \<lparr>firstline = False, seqcount = 0, table = [eol ''>seq1'']\<rparr>)"
    by (simp add: scan_line_def start_def glibc_def header_key_def hsearch_find_def
        hsearch_enter_def)
  have bad: "\<not> (\<forall>c\<in>set (eol ''ACG123''). tolerated c)"
    by (simp add: tolerated_def ascii_upper_def ascii_lower_def)
  have ok: "\<forall>c\<in>set (eol ''ACGT''). tolerated c"
    by (simp add: tolerated_def ascii_upper_def ascii_lower_def)
  from classifier_clean_iff_tolerated [where sg = True and l = "eol ''ACGT''"]
    classifier_clean_iff_tolerated [where sg = True and l = "eol ''ACG123''"
      and P = "glibc 1000" and pre = "[eol ''>seq1'']" and post = "[]"]
    pre bad ok
  show ?thesis by simp
qed

text \<open>
  C7, as amended. A null pointer makes the classifier return 8, a code no string
  gives; the empty string is classified clean.
\<close>

theorem classifier_null_is_error_empty_is_clean:
  "contains_non_word_characters sg None = 8
   \<and> contains_non_word_characters sg (Some s) \<noteq> 8
   \<and> contains_non_word_characters sg (Some []) = 0"
  using non_word_scan_range [of sg s]
  by (auto simp: contains_non_word_characters_def)

text \<open>C7 as stated fails: the empty string is classified clean.\<close>

theorem classifier_empty_string_clean:
  "contains_non_word_characters True (Some []) = 0"
  by (simp add: contains_non_word_characters_def)

section \<open>Missing header\<close>

lemma first_line_not_header:
  assumes "\<not> is_header l"
  shows "fst (validate_fasta_core P None (Some (l # rest))) = 1"
proof -
  from assms have "scan_line P l (start []) = (Some 1, start [])"
    by (simp add: scan_line_def start_def)
  then show ?thesis by (simp add: validate_fasta_core_def)
qed

lemma blank_not_header: "blank_line l \<Longrightarrow> \<not> is_header l"
  by (cases l) (auto simp: blank_line_def)

text \<open>
  C2. When the first line that is not blank does not begin with the marker, the scan
  returns 1. And whenever the first line is not a header line the scan returns 1,
  whatever the rest of the file would give: a file of lines none of which is a
  header, where the check at the end of the stream would find a zero counter, gets
  1 and not 8.
\<close>

theorem missing_header_first:
  "(dropWhile blank_line ls = l # rest \<longrightarrow> \<not> is_header l
      \<longrightarrow> fst (validate_fasta_core P None (Some ls)) = 1)
   \<and> (\<not> is_header l0 \<longrightarrow> fst (validate_fasta_core P None (Some (l0 # ls0))) = 1)
   \<and> (ls \<noteq> [] \<longrightarrow> (\<forall>x\<in>set ls. \<not> is_header x)
      \<longrightarrow> fst (validate_fasta_core P None (Some ls)) = 1)"
proof (intro conjI impI)
  assume dw: "dropWhile blank_line ls = l # rest" and nh: "\<not> is_header l"
  then obtain l1 r1 where ls: "ls = l1 # r1" by (cases ls) auto
  have "\<not> is_header l1"
  proof (cases "blank_line l1")
    case True
    then show ?thesis by (rule blank_not_header)
  next
    case False
    with dw ls have "l1 = l" by simp
    with nh show ?thesis by simp
  qed
  then show "fst (validate_fasta_core P None (Some ls)) = 1"
    unfolding ls by (rule first_line_not_header)
next
  assume "\<not> is_header l0"
  then show "fst (validate_fasta_core P None (Some (l0 # ls0))) = 1"
    by (rule first_line_not_header)
next
  assume ne: "ls \<noteq> []" and all: "\<forall>x\<in>set ls. \<not> is_header x"
  then obtain l1 r1 where ls: "ls = l1 # r1" by (cases ls) auto
  with all have "\<not> is_header l1" by simp
  then show "fst (validate_fasta_core P None (Some ls)) = 1"
    unfolding ls by (rule first_line_not_header)
qed

theorem missing_header_first_witness:
  "fst (validate_fasta_core (glibc 1000) None
     (Some [[LF], eol ''ACGT'', eol ''>seq1'', eol ''ACGT''])) = 1
   \<and> fst (validate_fasta_core (glibc 1000) None
     (Some (eol ''ACGT'' # [eol ''>seq1'', eol ''>seq2'']))) = 1
   \<and> fst (validate_fasta_core (glibc 1000) None (Some [eol ''ACGT'', eol ''ACGT''])) = 1"
proof -
  have dw: "dropWhile blank_line [[LF], eol ''ACGT'', eol ''>seq1'', eol ''ACGT'']
      = eol ''ACGT'' # [eol ''>seq1'', eol ''ACGT'']"
    by (simp add: blank_line_def)
  have nh: "\<not> is_header (eol ''ACGT'')" by simp
  have all: "\<forall>x\<in>set [eol ''ACGT'', eol ''ACGT'']. \<not> is_header x" by simp
  from missing_header_first [where ls = "[[LF], eol ''ACGT'', eol ''>seq1'', eol ''ACGT'']"
      and l = "eol ''ACGT''" and rest = "[eol ''>seq1'', eol ''ACGT'']" and P = "glibc 1000"
      and ?l0.0 = "eol ''ACGT''" and ?ls0.0 = "[eol ''>seq1'', eol ''>seq2'']"]
    missing_header_first [where ls = "[eol ''ACGT'', eol ''ACGT'']" and P = "glibc 1000"]
    dw nh all
  show ?thesis by simp
qed

section \<open>Plain and compressed input\<close>

text \<open>
  C8. On the same lines, from the same state of the table, the plain scanner and the
  gzip scanner return the same code; so \<open>validate_fasta_file\<close> returns the same code
  for a plain file and for a \<open>.gz\<close> file that decompresses to the same lines.
\<close>

theorem gzip_same_classification:
  "fst (validate_fasta_core P g file) = fst (validate_fasta_core_gzip P g file)
   \<and> (\<not> gz_suffix name \<longrightarrow> gz_suffix name' \<longrightarrow> plain name = gz name'
       \<longrightarrow> fst (validate_fasta_file P plain gz g name)
           = fst (validate_fasta_file P plain gz g name'))"
proof -
  have core: "fst (validate_fasta_core P g f) = fst (validate_fasta_core_gzip P g f)" for f
    by (simp add: validate_fasta_core_def validate_fasta_core_gzip_def
        split: option.splits prod.splits)
  show ?thesis using core by (simp add: validate_fasta_file_def)
qed

theorem gzip_same_classification_witness:
  "fst (validate_fasta_file (glibc 1000)
        (\<lambda>n. if n = ''a.fa'' then Some [eol ''>s'', eol ''AC''] else None)
        (\<lambda>n. if n = ''a.fa.gz'' then Some [eol ''>s'', eol ''AC''] else None) None ''a.fa'')
   = fst (validate_fasta_file (glibc 1000)
        (\<lambda>n. if n = ''a.fa'' then Some [eol ''>s'', eol ''AC''] else None)
        (\<lambda>n. if n = ''a.fa.gz'' then Some [eol ''>s'', eol ''AC''] else None) None ''a.fa.gz'')"
proof -
  have a: "\<not> gz_suffix ''a.fa''" by (simp add: gz_suffix_def)
  have b: "gz_suffix ''a.fa.gz''" by (simp add: gz_suffix_def)
  from gzip_same_classification [where name = "''a.fa''" and name' = "''a.fa.gz''"
     and P = "glibc 1000" and g = None
     and plain = "\<lambda>n. if n = ''a.fa'' then Some [eol ''>s'', eol ''AC''] else None"
     and gz = "\<lambda>n. if n = ''a.fa.gz'' then Some [eol ''>s'', eol ''AC''] else None"] a b
  show ?thesis by simp
qed

section \<open>Empty sequences\<close>





lemmas run_simps = validate_fasta_core_def scan_line_def start_def glibc_def header_key_def
  hsearch_find_def hsearch_enter_def contains_non_word_characters_def char_int_def





section \<open>Duplicate identifiers\<close>

lemma scan_line_table:
  assumes "scan_line P l s = (None, s')"
  shows "set (table s) \<subseteq> set (table s')
    \<and> length (table s') \<le> length (table s) + (if is_header l then 1 else 0)
    \<and> (is_header l \<longrightarrow> length (table s) < capacity P \<longrightarrow> header_key l \<in> set (table s'))"
  using assms
  by (auto simp: scan_line_def Let_def hsearch_find_def hsearch_enter_def split: if_splits)

lemma scan_lines_table:
  "scan_lines P ls s = (None, s')
   \<Longrightarrow> length (table s) + length (filter is_header ls) \<le> capacity P
   \<Longrightarrow> set (table s) \<subseteq> set (table s')
       \<and> length (table s') \<le> length (table s) + length (filter is_header ls)
       \<and> (\<forall>h\<in>set ls. is_header h \<longrightarrow> header_key h \<in> set (table s'))"
proof (induction ls arbitrary: s)
  case Nil
  then show ?case by simp
next
  case (Cons l ls)
  obtain r s1 where sl: "scan_line P l s = (r, s1)" by (cases "scan_line P l s")
  with Cons.prems(1) have r: "r = None" and rest: "scan_lines P ls s1 = (None, s')"
    by (cases r; simp)+
  from sl r have step: "set (table s) \<subseteq> set (table s1)
    \<and> length (table s1) \<le> length (table s) + (if is_header l then 1 else 0)
    \<and> (is_header l \<longrightarrow> length (table s) < capacity P \<longrightarrow> header_key l \<in> set (table s1))"
    by (simp add: scan_line_table)
  with Cons.prems(2) have room: "length (table s1) + length (filter is_header ls) \<le> capacity P"
    by (auto split: if_splits)
  from Cons.IH [OF rest room]
  have ih: "set (table s1) \<subseteq> set (table s')"
    "length (table s') \<le> length (table s1) + length (filter is_header ls)"
    "\<forall>h\<in>set ls. is_header h \<longrightarrow> header_key h \<in> set (table s')" by simp_all
  from step Cons.prems(2) have "is_header l \<longrightarrow> header_key l \<in> set (table s1)"
    by (auto split: if_splits)
  with ih(1) have "is_header l \<longrightarrow> header_key l \<in> set (table s')" by blast
  moreover from step ih(1) have "set (table s) \<subseteq> set (table s')" by blast
  moreover from step ih(2)
  have "length (table s') \<le> length (table s) + length (filter is_header (l # ls))"
    by (auto split: if_splits)
  ultimately show ?case using ih(3) by simp
qed

text \<open>
  C4, as amended. When the lines \<open>pre\<close> pass without a fault and leave a non-zero
  counter, and the headers among them fit into the table, a header line whose key
  (the line up to its first space) is the key of a header line of \<open>pre\<close> makes the
  scan return 2, whatever follows.
\<close>

theorem duplicate_key_reported:
  assumes "scan_lines P pre (start []) = (None, s)"
    and "seqcount s \<noteq> 0"
    and "length (filter is_header pre) \<le> capacity P"
    and "h1 \<in> set pre" and "is_header h1" and "is_header h2"
    and "header_key h2 = header_key h1"
  shows "fst (validate_fasta_core P None (Some (pre @ h2 # post))) = 2"
proof -
  have "table (start []) = []" by (simp add: start_def)
  with assms(3) have "length (table (start [])) + length (filter is_header pre) \<le> capacity P"
    by simp
  from scan_lines_table [OF assms(1) this] assms(4,5)
  have "header_key h1 \<in> set (table s)" by blast
  with assms(2,6,7) have "scan_line P h2 s = (Some 2, s\<lparr>firstline := False, seqcount := 0\<rparr>)"
    by (simp add: scan_line_def hsearch_find_def)
  with assms(1) show ?thesis by (rule validate_fault_at)
qed

text \<open>
  C4 as stated fails. The same token on two header lines gives 8 when the first record
  is empty, and 0 when one of the two lines ends its token with the line feed and the
  other with a space; and in a table of three entries the fourth key is not entered,
  so its repetition goes unnoticed.
\<close>

theorem duplicate_token_not_reported:
  "fst (validate_fasta_core (glibc 1000) None (Some [eol ''>seq1'', eol ''>seq1''])) = 8
   \<and> fst (validate_fasta_core (glibc 1000) None
        (Some [eol ''>seq1'', eol ''ACGT'', eol ''>seq1 extra'', eol ''ACGT''])) = 0
   \<and> record_identifier (eol ''>seq1'') = record_identifier (eol ''>seq1 extra'')
   \<and> fst (validate_fasta_core (glibc 3) None
        (Some [eol ''>a'', eol ''A'', eol ''>b'', eol ''A'', eol ''>c'', eol ''A'',
               eol ''>d'', eol ''A'', eol ''>d'', eol ''A''])) = 0"
  by (simp add: run_simps record_identifier_def whitespace_def)

theorem duplicate_key_reported_witness:
  "fst (validate_fasta_core (glibc 1000) None
     (Some ([eol ''>seq1 one'', eol ''ACGT''] @ eol ''>seq1 two'' # [eol ''ACGT'']))) = 2"
proof -
  have a: "scan_lines (glibc 1000) [eol ''>seq1 one'', eol ''ACGT''] (start []) =
      (None, \<lparr>firstline = False, seqcount = 5, table = [''>seq1'']\<rparr>)"
    by (simp add: run_simps)
  have b: "seqcount \<lparr>firstline = False, seqcount = 5, table = [''>seq1'']\<rparr> \<noteq> 0" by simp
  have c: "length (filter is_header [eol ''>seq1 one'', eol ''ACGT'']) \<le> capacity (glibc 1000)"
    by (simp add: glibc_def)
  have d: "eol ''>seq1 one'' \<in> set [eol ''>seq1 one'', eol ''ACGT'']" by simp
  have e: "is_header (eol ''>seq1 one'')" "is_header (eol ''>seq1 two'')" by simp_all
  have f: "header_key (eol ''>seq1 two'') = header_key (eol ''>seq1 one'')"
    by (simp add: header_key_def)
  from duplicate_key_reported [OF a b c d e f] show ?thesis .
qed

text \<open>
  Where a description follows the identifier, the key is the marker and the
  identifier of the specification: the cut at the space compares identifiers.
\<close>

lemma described_header_key:
  assumes "\<forall>c\<in>set i. \<not> whitespace c"
  shows "header_key (CHR ''>'' # i @ CHR '' '' # d) = CHR ''>'' # i"
    and "record_identifier (CHR ''>'' # i @ CHR '' '' # d) = i"
proof -
  from assms have "\<forall>c\<in>set i. c \<noteq> CHR '' ''" by (auto simp: whitespace_def)
  then show "header_key (CHR ''>'' # i @ CHR '' '' # d) = CHR ''>'' # i"
    by (simp add: header_key_def takeWhile_append2)
  from assms show "record_identifier (CHR ''>'' # i @ CHR '' '' # d) = i"
    by (simp add: record_identifier_def takeWhile_append2 whitespace_def)
qed

text \<open>
  C5 fails on the code. \<open>>seq1 extra\<close> and \<open>>seq1\<close>, each with its line feed, carry
  the identifier \<open>seq1\<close>: stripping the marker and cutting at the first whitespace
  gives the same string. The code cuts at the space only, so the key of the second
  line keeps its line feed, the keys differ, and the file in which \<open>seq1\<close> names two
  records is accepted with 0.
\<close>

theorem identifier_keeps_line_terminator:
  "record_identifier (eol ''>seq1 extra'') = ''seq1''
   \<and> record_identifier (eol ''>seq1'') = ''seq1''
   \<and> header_key (eol ''>seq1 extra'') = ''>seq1''
   \<and> header_key (eol ''>seq1'') = eol ''>seq1''
   \<and> fst (validate_fasta_core (glibc 1000) None
        (Some [eol ''>seq1 extra'', eol ''ACGT'', eol ''>seq1'', eol ''ACGT''])) = 0"
  by (simp add: run_simps record_identifier_def whitespace_def)

section \<open>Two runs in one process\<close>

lemma scan_line_codes: "scan_line P l s = (Some rc, s') \<Longrightarrow> rc \<in> {1, 2, 4, 8}"
  by (auto simp: scan_line_def Let_def split: if_splits)

lemma scan_lines_codes: "scan_lines P ls s = (Some rc, s') \<Longrightarrow> rc \<in> {1, 2, 4, 8}"
proof (induction ls arbitrary: s)
  case Nil
  then show ?case by simp
next
  case (Cons l ls)
  obtain r s1 where sl: "scan_line P l s = (r, s1)" by (cases "scan_line P l s")
  show ?case
  proof (cases r)
    case None
    with sl Cons.prems have "scan_lines P ls s1 = (Some rc, s')" by simp
    then show ?thesis by (rule Cons.IH)
  next
    case (Some c)
    with sl Cons.prems have "scan_line P l s = (Some rc, s')" by simp
    then show ?thesis by (rule scan_line_codes)
  qed
qed

text \<open>A run that returns 0 destroys the table, and a second run returns 0 again.\<close>

lemma valid_file_twice:
  assumes "fst (validate_fasta_core P None file) = 0"
  shows "validate_twice P file = (0, 0)"
proof -
  from assms obtain ls where some: "file = Some ls"
    by (cases "file") (simp_all add: validate_fasta_core_def)
  obtain r s where sc: "scan_lines P ls (start []) = (r, s)"
    by (cases "scan_lines P ls (start [])")
  have "r = None"
  proof (cases r)
    case None
    then show ?thesis .
  next
    case (Some rc)
    with sc have "scan_lines P ls (start []) = (Some rc, s)" by simp
    then have "rc \<in> {1, 2, 4, 8}" by (rule scan_lines_codes)
    with assms some sc Some show ?thesis by (auto simp: validate_fasta_core_def)
  qed
  with assms some sc have "validate_fasta_core P None file = (0, None)"
    by (auto simp: validate_fasta_core_def split: if_splits)
  then show ?thesis by (simp add: validate_twice_def)
qed

text \<open>Where \<open>hcreate\<close> installs a new table each time, the second run repeats the first.\<close>

lemma replace_policy_twice:
  assumes "on_active P = Replace"
  shows "validate_twice P file = (fst (validate_fasta_core P None file),
    fst (validate_fasta_core P None file))"
proof -
  from assms have "hcreate P g = Some []" for g by (cases g) simp_all
  then have "fst (validate_fasta_core P g file) = fst (validate_fasta_core P None file)" for g
    by (simp add: validate_fasta_core_def)
  then show ?thesis by (simp add: validate_twice_def split: prod.splits) (metis fst_conv)
qed

text \<open>
  C9 fails on the code. A run that ends in a fault returns before \<open>hdestroy\<close>, so the
  table is still active when the next run calls \<open>hcreate\<close>. With glibc the second run
  of the same file returns -1 where the first returned 8, 4 or 1; where \<open>hcreate\<close>
  keeps the old table the second run finds the identifier of the first run and
  returns 2.
\<close>

theorem second_run_differs:
  "validate_twice (glibc 1000) (Some [eol ''>seq1'']) = (8, - 1)
   \<and> validate_twice (glibc 1000) (Some [eol ''>seq1'', eol ''ACG123'']) = (4, - 1)
   \<and> validate_twice (glibc 1000) None = (1, - 1)
   \<and> validate_twice \<lparr>on_active = Keep, capacity = 1000, char_signed = True\<rparr>
        (Some [eol ''>seq1'']) = (8, 2)"
  by (simp add: validate_twice_def run_simps)

section \<open>Well-formed input and the 32-bit counter\<close>

lemma clean_line_counted:
  assumes "\<not> is_header q" and "\<forall>c\<in>set q. tolerated c" and "\<not> firstline s"
  shows "scan_line P q s = (None, s\<lparr>seqcount := seqcount s + of_nat (length q)\<rparr>)"
  using assms
  by (simp add: scan_line_def contains_non_word_characters_def non_word_scan_zero_iff)

lemma scan_replicate:
  assumes "\<not> is_header q" and "\<forall>c\<in>set q. tolerated c"
  shows "\<not> firstline s \<Longrightarrow>
    scan_lines P (replicate n q) s = (None, s\<lparr>seqcount := seqcount s + of_nat (n * length q)\<rparr>)"
proof (induction n arbitrary: s)
  case 0
  then show ?case by simp
next
  case (Suc n)
  let ?s1 = "s\<lparr>seqcount := seqcount s + of_nat (length q)\<rparr>"
  from Suc.prems have one: "scan_line P q s = (None, ?s1)"
    using assms by (simp add: clean_line_counted)
  from Suc.prems have "\<not> firstline ?s1" by simp
  from Suc.IH [OF this] one show ?case by (simp add: algebra_simps)
qed

lemma seq_sizes_replicate:
  "\<not> is_header q \<Longrightarrow> seq_sizes n (replicate k q) = [n + k * length q]"
  by (induction k arbitrary: n) (simp_all add: algebra_simps)

lemma filter_header_replicate: "\<not> is_header q \<Longrightarrow> filter is_header (replicate k q) = []"
  by (induction k) simp_all

lemma takeWhile_whitespace_space:
  "takeWhile (\<lambda>c. \<not> whitespace c) (takeWhile (\<lambda>c. c \<noteq> CHR '' '') r)
     = takeWhile (\<lambda>c. \<not> whitespace c) r"
  by (induction r) (auto simp: whitespace_def)

lemma identifier_from_key:
  "is_header h \<Longrightarrow> record_identifier h = takeWhile (\<lambda>c. \<not> whitespace c) (tl (header_key h))"
  by (cases h) (simp_all add: record_identifier_def header_key_def takeWhile_whitespace_space)

lemma distinct_keys:
  assumes "distinct (map record_identifier (filter is_header ls))"
  shows "distinct (map header_key (filter is_header ls))"
proof -
  have "map record_identifier (filter is_header ls)
      = map (\<lambda>k. takeWhile (\<lambda>c. \<not> whitespace c) (tl k)) (map header_key (filter is_header ls))"
    by (simp add: identifier_from_key)
  with assms show ?thesis by (metis distinct_map)
qed

lemma distinct_keys_head:
  assumes "distinct (map f (filter Q (x # xs)))" and "Q x"
  shows "distinct (map f (filter Q xs))" and "\<forall>y\<in>set xs. Q y \<longrightarrow> f y \<noteq> f x"
proof -
  from assms have a: "f x \<notin> f ` set (filter Q xs)" and b: "distinct (map f (filter Q xs))"
    by simp_all
  show "distinct (map f (filter Q xs))" by (rule b)
  show "\<forall>y\<in>set xs. Q y \<longrightarrow> f y \<noteq> f x"
  proof (intro ballI impI notI)
    fix y assume "y \<in> set xs" "Q y" "f y = f x"
    then have "y \<in> set (filter Q xs)" by simp
    then have "f y \<in> f ` set (filter Q xs)" by (rule imageI)
    with \<open>f y = f x\<close> have "f x \<in> f ` set (filter Q xs)" by simp
    with a show False by contradiction
  qed
qed

lemma enter_subset: "set (hsearch_enter P k t) \<subseteq> insert k (set t)"
  by (auto simp: hsearch_enter_def)

lemma well_formed_rest_passes:
  "\<forall>l\<in>set ls. \<not> is_header l \<longrightarrow> (\<forall>c\<in>set l. tolerated c)
   \<Longrightarrow> distinct (map header_key (filter is_header ls))
   \<Longrightarrow> \<forall>h\<in>set ls. is_header h \<longrightarrow> header_key h \<notin> set (table s)
   \<Longrightarrow> \<not> firstline s
   \<Longrightarrow> seqcount s = of_nat n
   \<Longrightarrow> \<forall>m\<in>set (seq_sizes n ls). 0 < m \<and> m < 2 ^ 32
   \<Longrightarrow> \<exists>s'. scan_lines P ls s = (None, s') \<and> seqcount s' \<noteq> 0"
proof (induction ls arbitrary: s n)
  case Nil
  then have "0 < n" "n < 2 ^ 32" by simp_all
  then have "\<not> 2 ^ 32 dvd n" by (auto dest: dvd_imp_le)
  with Nil.prems(5) have "seqcount s \<noteq> 0" by (simp add: word_of_nat_eq_0_iff)
  then show ?case by simp
next
  case (Cons l ls)
  show ?case
  proof (cases "is_header l")
    case True
    with Cons.prems(6) have n: "0 < n" "n < 2 ^ 32"
      and sizes: "\<forall>m\<in>set (seq_sizes 0 ls). 0 < m \<and> m < 2 ^ 32" by simp_all
    from n have "\<not> 2 ^ 32 dvd n" by (auto dest: dvd_imp_le)
    with Cons.prems(5) have cnt: "seqcount s \<noteq> 0" by (simp add: word_of_nat_eq_0_iff)
    from Cons.prems(3) True have fresh: "header_key l \<notin> set (table s)" by simp
    let ?s1 = "s\<lparr>firstline := False, seqcount := 0,
      table := hsearch_enter P (header_key l) (table s)\<rparr>"
    from True cnt fresh have step: "scan_line P l s = (None, ?s1)"
      by (simp add: scan_line_def hsearch_find_def)
    from Cons.prems(2) True
    have d: "distinct (map header_key (filter is_header ls))"
      and other: "\<forall>h\<in>set ls. is_header h \<longrightarrow> header_key h \<noteq> header_key l"
      by (rule distinct_keys_head)+
    have t: "\<forall>h\<in>set ls. is_header h \<longrightarrow> header_key h \<notin> set (table ?s1)"
      using Cons.prems(3) other enter_subset [of P "header_key l" "table s"] by auto
    from Cons.prems(1) have c: "\<forall>l\<in>set ls. \<not> is_header l \<longrightarrow> (\<forall>c\<in>set l. tolerated c)"
      by simp
    have "\<exists>s'. scan_lines P ls ?s1 = (None, s') \<and> seqcount s' \<noteq> 0"
      by (rule Cons.IH [OF c d t _ _ sizes]) simp_all
    with step show ?thesis by simp
  next
    case False
    with Cons.prems(1) have tol: "\<forall>c\<in>set l. tolerated c" by simp
    let ?s1 = "s\<lparr>seqcount := seqcount s + of_nat (length l)\<rparr>"
    from False tol Cons.prems(4) have step: "scan_line P l s = (None, ?s1)"
      by (rule clean_line_counted)
    from Cons.prems(1) have c: "\<forall>l\<in>set ls. \<not> is_header l \<longrightarrow> (\<forall>c\<in>set l. tolerated c)"
      by simp
    from Cons.prems(2) False have d: "distinct (map header_key (filter is_header ls))" by simp
    from Cons.prems(3) have t: "\<forall>h\<in>set ls. is_header h \<longrightarrow> header_key h \<notin> set (table ?s1)"
      by simp
    from Cons.prems(4) have f: "\<not> firstline ?s1" by simp
    from Cons.prems(5) have cnt: "seqcount ?s1 = of_nat (n + length l)" by simp
    from Cons.prems(6) False
    have sizes: "\<forall>m\<in>set (seq_sizes (n + length l) ls). 0 < m \<and> m < 2 ^ 32" by simp
    from Cons.IH [OF c d t f cnt sizes] step show ?thesis by simp
  qed
qed

lemma well_formed_bounded_success:
  assumes "well_formed ls" and "\<forall>n\<in>set (record_sizes ls). n < 2 ^ 32"
  shows "validate_fasta_core P None (Some ls) = (0, None)"
proof -
  from assms(1) obtain h rest where ls: "ls = h # rest" and h: "is_header h"
    by (cases ls) (auto simp: well_formed_def)
  let ?s1 = "\<lparr>firstline = False, seqcount = 0, table = hsearch_enter P (header_key h) []\<rparr>"
  from h have step: "scan_line P h (start []) = (None, ?s1)"
    by (simp add: scan_line_def start_def hsearch_find_def)
  from assms(1) have "distinct (map header_key (filter is_header ls))"
    by (simp add: well_formed_def distinct_keys)
  with ls have "distinct (map header_key (filter is_header (h # rest)))" by simp
  from this h have d: "distinct (map header_key (filter is_header rest))"
    and other: "\<forall>x\<in>set rest. is_header x \<longrightarrow> header_key x \<noteq> header_key h"
    by (rule distinct_keys_head)+
  have t: "\<forall>x\<in>set rest. is_header x \<longrightarrow> header_key x \<notin> set (table ?s1)"
    using other enter_subset [of P "header_key h" "[]"] by auto
  from assms(1) ls have c: "\<forall>l\<in>set rest. \<not> is_header l \<longrightarrow> (\<forall>c\<in>set l. tolerated c)"
    by (simp add: well_formed_def)
  from assms ls have sizes: "\<forall>m\<in>set (seq_sizes 0 rest). 0 < m \<and> m < 2 ^ 32"
    by (simp add: well_formed_def record_sizes_def)
  have "\<exists>s'. scan_lines P rest ?s1 = (None, s') \<and> seqcount s' \<noteq> 0"
    by (rule well_formed_rest_passes [OF c d t _ _ sizes]) simp_all
  with step ls show ?thesis by (auto simp: validate_fasta_core_def)
qed

lemma blank_tolerated: "blank_line l \<Longrightarrow> \<forall>c\<in>set l. tolerated c"
  by (auto simp: blank_line_def tolerated_def)

lemma blank_line_clean_and_counted:
  assumes "blank_line l"
  shows "contains_non_word_characters sg (Some l) = 0"
    and "\<not> firstline s \<Longrightarrow>
      scan_line P l s = (None, s\<lparr>seqcount := seqcount s + of_nat (length l)\<rparr>)"
proof -
  from assms have tol: "\<forall>c\<in>set l. tolerated c" by (rule blank_tolerated)
  then show "contains_non_word_characters sg (Some l) = 0"
    by (simp add: contains_non_word_characters_def non_word_scan_zero_iff)
  from assms have "\<not> is_header l" by (rule blank_not_header)
  then show "\<not> firstline s \<Longrightarrow>
      scan_line P l s = (None, s\<lparr>seqcount := seqcount s + of_nat (length l)\<rparr>)"
    using tol by (rule clean_line_counted)
qed

text \<open>
  C1 fails on the code. A header line followed by \<open>2 ^ 31\<close> lines \<open>A\<close>, each with its
  line feed, is well formed, but the \<open>2 ^ 32\<close> characters of the record bring the
  \<open>int\<close> counter back to 0 and the scan returns 8. Below \<open>2 ^ 32\<close> characters per
  record the scan returns 0: \<open>well_formed_bounded_success\<close>.
\<close>

theorem well_formed_4GiB_record_rejected:
  "well_formed (eol ''>seq1'' # replicate (2 ^ 31) (eol ''A''))
   \<and> fst (validate_fasta_core (glibc 1000) None
        (Some (eol ''>seq1'' # replicate (2 ^ 31) (eol ''A'')))) = 8"
proof
  have nh: "\<not> is_header (eol ''A'')" by simp
  have tol: "\<forall>c\<in>set (eol ''A''). tolerated c"
    by (simp add: tolerated_def ascii_upper_def ascii_lower_def)
  show "well_formed (eol ''>seq1'' # replicate (2 ^ 31) (eol ''A''))"
    using tol
    by (simp add: well_formed_def record_sizes_def seq_sizes_replicate
        filter_header_replicate)
  let ?s1 = "\<lparr>firstline = False, seqcount = 0, table = [eol ''>seq1'']\<rparr>"
  have hd: "scan_line (glibc 1000) (eol ''>seq1'') (start []) = (None, ?s1)"
    by (simp add: run_simps)
  have "\<not> firstline ?s1" by simp
  from scan_replicate [OF nh tol this, of "glibc 1000" "2 ^ 31"]
  have "scan_lines (glibc 1000) (replicate (2 ^ 31) (eol ''A'')) ?s1
      = (None, ?s1\<lparr>seqcount := of_nat (2 ^ 31 * 2)\<rparr>)" by simp
  moreover have "(of_nat (2 ^ 31 * 2) :: 32 word) = 0" by simp
  ultimately have "scan_lines (glibc 1000) (eol ''>seq1'' # replicate (2 ^ 31) (eol ''A''))
      (start []) = (None, ?s1)"
    using hd by simp
  then show "fst (validate_fasta_core (glibc 1000) None
        (Some (eol ''>seq1'' # replicate (2 ^ 31) (eol ''A'')))) = 8"
    by (simp add: validate_fasta_core_def)
qed

theorem well_formed_4GiB_record_rejected_witness:
  "fst (validate_fasta_core (glibc 1000) None
     (Some (eol ''>seq1'' # replicate (2 ^ 31) (eol ''A'')))) \<noteq> 0"
  using well_formed_4GiB_record_rejected by simp

text \<open>
  C10 fails on the code for the same reason. A blank line is clean and its line feed
  is counted (\<open>blank_line_clean_and_counted\<close>), but a record of \<open>2 ^ 32\<close> blank lines
  of one line feed each leaves the counter at 0 and is reported as an empty sequence.
\<close>

theorem blank_record_4GiB_rejected:
  "fst (validate_fasta_core (glibc 1000) None
     (Some (eol ''>seq1'' # replicate (2 ^ 32) [LF]))) = 8"
proof -
  have nh: "\<not> is_header [LF]" by simp
  have tol: "\<forall>c\<in>set [LF]. tolerated c" by (simp add: tolerated_def)
  let ?s1 = "\<lparr>firstline = False, seqcount = 0, table = [eol ''>seq1'']\<rparr>"
  have hd: "scan_line (glibc 1000) (eol ''>seq1'') (start []) = (None, ?s1)"
    by (simp add: run_simps)
  have "\<not> firstline ?s1" by simp
  from scan_replicate [OF nh tol this, of "glibc 1000" "2 ^ 32"]
  have "scan_lines (glibc 1000) (replicate (2 ^ 32) [LF]) ?s1 = (None, ?s1)" by simp
  with hd have "scan_lines (glibc 1000) (eol ''>seq1'' # replicate (2 ^ 32) [LF])
      (start []) = (None, ?s1)" by simp
  then show ?thesis
    by (simp add: validate_fasta_core_def)
qed

end
